theory Spec2Isabelle
  imports Main "HOL-Library.Sublist" "HOL-Library.AList" "HOL-Library.Multiset"
begin

section \<open>DocuAI: the incremental analysis pipeline of rag\_documentation\_system.py\<close>

text \<open>
  A shallow embedding of class \<open>CodebaseRAG\<close>. Python values that travel through the
  JSON cache are values of \<open>json\<close>; a Python \<open>dict\<close> is an association list in
  insertion order, read with \<open>map_of\<close> and written with \<open>AList.update\<close> (replace in
  place, else append), as Python dictionaries behave. Exceptions are values of \<open>error\<close>
  and a call that may raise returns \<open>error + 'a\<close>. The file system is a tree of nodes;
  a path is the list of the components of an absolute POSIX path. Characters are
  8-bit, so \<open>lower\<close> is the ASCII case mapping. JSON floats are not modelled: the
  program never produces one.
\<close>

subsection \<open>Values, errors, external capabilities\<close>

datatype json =
    JNull
  | JBool bool
  | JInt int
  | JStr string
  | JList "json list"
  | JDict "(string \<times> json) list"

datatype error =
    FileNotFoundError
  | FileExistsError
  | NotADirectoryError
  | IsADirectoryError
  | PermissionError
  | ValueError
  | TypeError
  | AttributeError
  | KeyError
  | JSONDecodeError
  | GenerationError string

text \<open>
  What the program imports and does not define: \<open>hashlib.md5(b).hexdigest()\<close>, the
  UTF-8 text layer of \<open>open\<close> (reading with \<open>errors='ignore'\<close>, writing),
  \<open>json.dump\<close> and \<open>json.load\<close> through that text layer, \<open>llm.ask_llm\<close> (the
  generation capability, a deterministic function that may raise) and Python's
  \<open>str()\<close> of a value that is not a string, as an f-string formats it.
\<close>

record ext =
  md5_hexdigest :: "string \<Rightarrow> string"
  read_text :: "string \<Rightarrow> string"
  write_text :: "string \<Rightarrow> string"
  json_dump :: "json \<Rightarrow> string"
  json_load :: "string \<Rightarrow> error + json"
  ask_llm :: "string \<Rightarrow> error + string"
  py_str :: "json \<Rightarrow> string"

subsection \<open>Python primitives on strings and containers\<close>

definition nl :: string where
  "nl = [CHR 0x0A]"

definition lower_char :: "char \<Rightarrow> char" where
  "lower_char c =
     (case map_of (zip ''ABCDEFGHIJKLMNOPQRSTUVWXYZ'' ''abcdefghijklmnopqrstuvwxyz'') c of
        None \<Rightarrow> c
      | Some l \<Rightarrow> l)"

definition lower :: "string \<Rightarrow> string" where
  "lower s = map lower_char s"

text \<open>\<open>sub in s\<close> on two strings: \<open>sub\<close> occurs in \<open>s\<close> as a contiguous run.\<close>

fun py_in_str :: "string \<Rightarrow> string \<Rightarrow> bool" where
  "py_in_str sub [] = (sub = [])"
| "py_in_str sub (c # s) = (prefix sub (c # s) \<or> py_in_str sub s)"

text \<open>\<open>sep.join(parts)\<close>.\<close>

fun join :: "string \<Rightarrow> string list \<Rightarrow> string" where
  "join sep [] = []"
| "join sep [c] = c"
| "join sep (c # d # cs) = c @ sep @ join sep (d # cs)"

text \<open>\<open>key in container\<close>, \<open>container[key]\<close> and \<open>obj.get(key, default)\<close> for a string key.\<close>

fun py_contains :: "json \<Rightarrow> string \<Rightarrow> error + bool" where
  "py_contains (JDict d) key = Inr (map_of d key \<noteq> None)"
| "py_contains (JList l) key = Inr (JStr key \<in> set l)"
| "py_contains (JStr s) key = Inr (py_in_str key s)"
| "py_contains _ key = Inl TypeError"

fun py_getitem :: "json \<Rightarrow> string \<Rightarrow> error + json" where
  "py_getitem (JDict d) key = (case map_of d key of None \<Rightarrow> Inl KeyError | Some v \<Rightarrow> Inr v)"
| "py_getitem _ key = Inl TypeError"

fun py_get :: "json \<Rightarrow> string \<Rightarrow> json \<Rightarrow> error + json" where
  "py_get (JDict d) key dflt = Inr (case map_of d key of None \<Rightarrow> dflt | Some v \<Rightarrow> v)"
| "py_get _ key dflt = Inl AttributeError"

text \<open>Truthiness of a value, as \<open>if v:\<close> and \<open>and\<close> test it.\<close>

fun py_truthy :: "json \<Rightarrow> bool" where
  "py_truthy JNull = False"
| "py_truthy (JBool b) = b"
| "py_truthy (JInt i) = (i \<noteq> 0)"
| "py_truthy (JStr s) = (s \<noteq> [])"
| "py_truthy (JList l) = (l \<noteq> [])"
| "py_truthy (JDict d) = (d \<noteq> [])"

subsection \<open>Paths and the file system\<close>

type_synonym path = "string list"

text \<open>\<open>str(path)\<close> of an absolute path, \<open>path.name\<close>, \<open>path.suffix\<close> and \<open>path.stem\<close>
  (pathlib: the last dot of the name counts when it is neither first nor last).\<close>

definition path_str :: "path \<Rightarrow> string" where
  "path_str p = (if p = [] then ''/'' else concat (map (\<lambda>c. ''/'' @ c) p))"

definition path_name :: "path \<Rightarrow> string" where
  "path_name p = (if p = [] then [] else last p)"

definition rfind_dot :: "string \<Rightarrow> nat option" where
  "rfind_dot name =
     (if CHR ''.'' \<in> set name
      then Some (length name - 1 - length (takeWhile (\<lambda>c. c \<noteq> CHR ''.'') (rev name)))
      else None)"

definition name_suffix :: "string \<Rightarrow> string" where
  "name_suffix name =
     (case rfind_dot name of
        None \<Rightarrow> []
      | Some i \<Rightarrow> if 0 < i \<and> i < length name - 1 then drop i name else [])"

definition name_stem :: "string \<Rightarrow> string" where
  "name_stem name =
     (case rfind_dot name of
        None \<Rightarrow> name
      | Some i \<Rightarrow> if 0 < i \<and> i < length name - 1 then take i name else name)"

text \<open>\<open>file_path.relative_to(root_path)\<close> and \<open>str\<close> of the relative path.\<close>

definition relative_to :: "path \<Rightarrow> path \<Rightarrow> error + path" where
  "relative_to p root = (if prefix root p then Inr (drop (length root) p) else Inl ValueError)"

definition rel_str :: "path \<Rightarrow> string" where
  "rel_str r = (if r = [] then ''.'' else join ''/'' r)"

text \<open>
  A node is a regular file with its bytes, an entry that cannot be opened (no
  permission, a dangling link), or a directory with its entries. The value of type
  \<open>node\<close> that the operations take is the directory \<open>/\<close>.
\<close>

datatype node = File string | NoRead | Dir "(string \<times> node) list"

fun is_dir :: "node \<Rightarrow> bool" where
  "is_dir (Dir cs) = True"
| "is_dir _ = False"

fun lookup :: "node \<Rightarrow> path \<Rightarrow> node option" where
  "lookup n [] = Some n"
| "lookup (Dir cs) (c # p) = (case map_of cs c of None \<Rightarrow> None | Some n \<Rightarrow> lookup n p)"
| "lookup (File b) (c # p) = None"
| "lookup NoRead (c # p) = None"

text \<open>Store a node at a path whose parent directory exists; elsewhere nothing changes.\<close>

fun put :: "node \<Rightarrow> path \<Rightarrow> node \<Rightarrow> node" where
  "put n [] new = new"
| "put (Dir cs) (c # p) new =
     (case map_of cs c of
        None \<Rightarrow> if p = [] then Dir (AList.update c new cs) else Dir cs
      | Some n \<Rightarrow> Dir (AList.update c (put n p new) cs))"
| "put (File b) (c # p) new = File b"
| "put NoRead (c # p) new = NoRead"

definition path_exists :: "node \<Rightarrow> path \<Rightarrow> bool" where
  "path_exists fs p = (lookup fs p \<noteq> None)"

definition open_read :: "node \<Rightarrow> path \<Rightarrow> error + string" where
  "open_read fs p =
     (case lookup fs p of
        None \<Rightarrow> Inl FileNotFoundError
      | Some (File b) \<Rightarrow> Inr b
      | Some NoRead \<Rightarrow> Inl PermissionError
      | Some (Dir cs) \<Rightarrow> Inl IsADirectoryError)"

text \<open>\<open>open(p, 'w')\<close> followed by one write of \<open>bytes\<close>.\<close>

definition open_write :: "node \<Rightarrow> path \<Rightarrow> string \<Rightarrow> error + node" where
  "open_write fs p bytes =
     (case lookup fs p of
        Some (Dir cs) \<Rightarrow> Inl IsADirectoryError
      | Some NoRead \<Rightarrow> Inl PermissionError
      | Some (File b) \<Rightarrow> Inr (put fs p (File bytes))
      | None \<Rightarrow>
          (case lookup fs (butlast p) of
             Some (Dir cs) \<Rightarrow> Inr (put fs p (File bytes))
           | Some (File b) \<Rightarrow> Inl NotADirectoryError
           | Some NoRead \<Rightarrow> Inl NotADirectoryError
           | None \<Rightarrow> Inl FileNotFoundError))"

text \<open>\<open>p.mkdir(exist_ok=True)\<close>: no parents are created.\<close>

definition mkdir_exist_ok :: "node \<Rightarrow> path \<Rightarrow> error + node" where
  "mkdir_exist_ok fs p =
     (case lookup fs p of
        Some (Dir cs) \<Rightarrow> Inr fs
      | Some (File b) \<Rightarrow> Inl FileExistsError
      | Some NoRead \<Rightarrow> Inl FileExistsError
      | None \<Rightarrow>
          (case lookup fs (butlast p) of
             Some (Dir cs) \<Rightarrow> Inr (put fs p (Dir []))
           | Some (File b) \<Rightarrow> Inl NotADirectoryError
           | Some NoRead \<Rightarrow> Inl NotADirectoryError
           | None \<Rightarrow> Inl FileNotFoundError))"

subsection \<open>The instance and its configuration\<close>

record rag =
  root_path :: path
  cache_dir :: path

definition code_extensions :: "string list" where
  "code_extensions =
     [''.py'', ''.js'', ''.ts'', ''.jsx'', ''.tsx'', ''.java'', ''.cpp'', ''.c'', ''.h'',
      ''.cs'', ''.php'', ''.rb'', ''.go'', ''.rs'', ''.swift'', ''.kt'', ''.scala'',
      ''.html'', ''.css'', ''.scss'', ''.sass'', ''.vue'', ''.svelte'', ''.sql'',
      ''.sh'', ''.bash'', ''.ps1'', ''.yaml'', ''.yml'', ''.json'', ''.xml'', ''.toml'']"

definition ignore_patterns :: "string list" where
  "ignore_patterns =
     [''__pycache__'', ''.git'', ''.vscode'', ''.idea'', ''node_modules'',
      ''*.pyc'', ''*.pyo'', ''*.pyd'', ''.DS_Store'', ''Thumbs.db'',
      ''.env'', ''.env.*'', ''*.log'', ''*.tmp'', ''*.cache'',
      ''.rag_cache'', ''venv'', ''env'', ''.venv'']"

text \<open>\<open>__init__\<close>: the root is taken as already absolute and resolved.\<close>

definition init :: "node \<Rightarrow> path \<Rightarrow> error + (rag \<times> node)" where
  "init fs root =
     (let cd = root @ [''.rag_cache''] in
      case mkdir_exist_ok fs cd of
        Inl e \<Rightarrow> Inl e
      | Inr fs' \<Rightarrow> Inr (\<lparr>root_path = root, cache_dir = cd\<rparr>, fs'))"

subsection \<open>should\_ignore\<close>

text \<open>
  \<open>fnmatch.fnmatch\<close> on POSIX (no case folding) for patterns built from literal
  characters, \<open>*\<close> and \<open>?\<close>; no configured pattern has a bracket expression.
\<close>

fun fnmatch :: "string \<Rightarrow> string \<Rightarrow> bool" where
  "fnmatch [] [] = True"
| "fnmatch (x # s) [] = False"
| "fnmatch [] (c # pat) = (c = CHR ''*'' \<and> fnmatch [] pat)"
| "fnmatch (x # s) (c # pat) =
     (if c = CHR ''*'' then fnmatch (x # s) pat \<or> fnmatch s (c # pat)
      else if c = CHR ''?'' then fnmatch s pat
      else c = x \<and> fnmatch s pat)"

definition should_ignore :: "path \<Rightarrow> bool" where
  "should_ignore p =
     (\<exists>pattern \<in> set ignore_patterns.
        fnmatch (path_name p) pattern \<or> fnmatch (path_str p) pattern)"

subsection \<open>get\_file\_hash, load\_cache, save\_cache\<close>

definition get_file_hash :: "ext \<Rightarrow> node \<Rightarrow> path \<Rightarrow> string" where
  "get_file_hash x fs file_path =
     (case open_read fs file_path of
        Inl e \<Rightarrow> ''''
      | Inr bytes \<Rightarrow> md5_hexdigest x bytes)"

definition cache_file :: "rag \<Rightarrow> path" where
  "cache_file self = cache_dir self @ [''analysis_cache.json'']"

definition load_cache :: "ext \<Rightarrow> rag \<Rightarrow> node \<Rightarrow> json" where
  "load_cache x self fs =
     (if path_exists fs (cache_file self)
      then (case open_read fs (cache_file self) of
              Inl e \<Rightarrow> JDict []
            | Inr bytes \<Rightarrow> (case json_load x bytes of Inl e \<Rightarrow> JDict [] | Inr v \<Rightarrow> v))
      else JDict [])"

text \<open>A failed write is printed and swallowed: the file system stays as it was.\<close>

definition save_cache :: "ext \<Rightarrow> rag \<Rightarrow> node \<Rightarrow> json \<Rightarrow> node" where
  "save_cache x self fs cache_data =
     (case open_write fs (cache_file self) (json_dump x cache_data) of
        Inl e \<Rightarrow> fs
      | Inr fs' \<Rightarrow> fs')"

subsection \<open>scan\_codebase\<close>

text \<open>
  \<open>os.walk\<close>, top down: the files of a directory first, then each of its
  subdirectories that the assignment to \<open>dirs[:]\<close> kept, in the directory's order.
  The walk starts at the root without testing the root itself.
\<close>

definition eligible :: "path \<Rightarrow> bool" where
  "eligible file_path =
     (\<not> should_ignore file_path \<and>
      lower (name_suffix (path_name file_path)) \<in> set code_extensions)"

fun walk :: "path \<Rightarrow> node \<Rightarrow> path list" where
  "walk root (Dir cs) =
     filter eligible (map (\<lambda>(filename, t). root @ [filename]) (filter (\<lambda>(filename, t). \<not> is_dir t) cs))
     @ concat (map (\<lambda>(d, t). if is_dir t \<and> \<not> should_ignore (root @ [d])
                                then walk (root @ [d]) t else []) cs)"
| "walk root (File b) = []"
| "walk root NoRead = []"

definition scan_codebase :: "rag \<Rightarrow> node \<Rightarrow> path list" where
  "scan_codebase self fs =
     (case lookup fs (root_path self) of
        None \<Rightarrow> []
      | Some n \<Rightarrow> walk (root_path self) n)"

subsection \<open>analyze\_file\<close>

definition analysis_prompt :: "string \<Rightarrow> string \<Rightarrow> string" where
  "analysis_prompt relative_path content =
     ''Analyze this code file and provide a structured summary:'' @ nl @ nl @
     ''File: '' @ relative_path @ nl @
     ''Content:'' @ nl @
     [CHR 0x60, CHR 0x60, CHR 0x60] @ nl @
     take 4000 content @ ''  # Limit content to avoid token limits'' @ nl @
     [CHR 0x60, CHR 0x60, CHR 0x60] @ nl @ nl @
     ''Please provide:'' @ nl @
     ''1. Brief description of what this file does'' @ nl @
     ''2. Key functions/classes/components'' @ nl @
     ''3. Dependencies and imports'' @ nl @
     ''4. Main purpose and role in the project'' @ nl @
     ''5. Any notable patterns or architecture'' @ nl @ nl @
     ''Format as JSON with keys: description, key_components, dependencies, purpose, notes''"

text \<open>
  The cache test of \<open>analyze_file\<close>:
  \<open>relative_path in cache and cache[relative_path].get('hash') == file_hash\<close>, with
  the entry it returns on a hit. The cache is whatever \<open>json.load\<close> gave.
\<close>

definition cache_lookup :: "json \<Rightarrow> string \<Rightarrow> string \<Rightarrow> error + json option" where
  "cache_lookup cache relative_path file_hash =
     (case py_contains cache relative_path of
        Inl e \<Rightarrow> Inl e
      | Inr present \<Rightarrow>
          if \<not> present then Inr None
          else (case py_getitem cache relative_path of
                  Inl e \<Rightarrow> Inl e
                | Inr entry \<Rightarrow>
                    (case py_get entry ''hash'' JNull of
                       Inl e \<Rightarrow> Inl e
                     | Inr h \<Rightarrow> if h = JStr file_hash then Inr (Some entry) else Inr None)))"

definition error_record :: "string \<Rightarrow> json" where
  "error_record file_hash =
     JDict [(''error'', JStr ''Could not read file''), (''hash'', JStr file_hash)]"

text \<open>\<open>len(content.split('\n'))\<close> is one more than the number of newlines.\<close>

definition line_count :: "string \<Rightarrow> nat" where
  "line_count content = Suc (length (filter (\<lambda>c. c = CHR 0x0A) content))"

definition analysis_record :: "string \<Rightarrow> string \<Rightarrow> string \<Rightarrow> string \<Rightarrow> json" where
  "analysis_record file_hash relative_path content llm_response =
     JDict [(''hash'', JStr file_hash),
            (''path'', JStr relative_path),
            (''size'', JInt (int (length content))),
            (''lines'', JInt (int (line_count content))),
            (''analysis'', JStr llm_response),
            (''content_preview'', JStr (take 500 content))]"

text \<open>
  The result is the returned record or the exception raised, paired with the prompts
  sent to \<open>ask_llm\<close> during the call, in order.
\<close>

definition analyze_file ::
  "ext \<Rightarrow> rag \<Rightarrow> node \<Rightarrow> path \<Rightarrow> json \<Rightarrow> (error + json) \<times> string list" where
  "analyze_file x self fs file_path cache =
     (case relative_to file_path (root_path self) of
        Inl e \<Rightarrow> (Inl e, [])
      | Inr rel \<Rightarrow>
          (let relative_path = rel_str rel;
               file_hash = get_file_hash x fs file_path
           in case cache_lookup cache relative_path file_hash of
                Inl e \<Rightarrow> (Inl e, [])
              | Inr (Some cached) \<Rightarrow> (Inr cached, [])
              | Inr None \<Rightarrow>
                  (case open_read fs file_path of
                     Inl e \<Rightarrow> (Inr (error_record file_hash), [])
                   | Inr bytes \<Rightarrow>
                       (let content = read_text x bytes;
                            prompt = analysis_prompt relative_path content
                        in case ask_llm x prompt of
                             Inl e \<Rightarrow> (Inl e, [prompt])
                           | Inr llm_response \<Rightarrow>
                               (Inr (analysis_record file_hash relative_path content llm_response),
                                [prompt])))))"

subsection \<open>analyze\_codebase\_parallel\<close>

text \<open>
  Every submitted call of \<open>analyze_file\<close> reads the same file system and the same
  cache and nothing else, so the pool is modelled by the order in which
  \<open>as_completed\<close> hands the futures back: \<open>completion\<close> rearranges the submitted
  files. The coordinator stores each returned record under the relative path of its
  file; a future that raised is printed and skipped.
\<close>

fun collect :: "ext \<Rightarrow> rag \<Rightarrow> node \<Rightarrow> json \<Rightarrow> path list \<Rightarrow> (string \<times> json) list \<Rightarrow> (string \<times> json) list" where
  "collect x self fs cache [] results = results"
| "collect x self fs cache (file_path # rest) results =
     (case fst (analyze_file x self fs file_path cache) of
        Inl e \<Rightarrow> collect x self fs cache rest results
      | Inr result \<Rightarrow>
          (case relative_to file_path (root_path self) of
             Inl e \<Rightarrow> collect x self fs cache rest results
           | Inr rel \<Rightarrow> collect x self fs cache rest (AList.update (rel_str rel) result results)))"

text \<open>\<open>ThreadPoolExecutor\<close> raises \<open>ValueError\<close> unless \<open>max_workers\<close> is positive.\<close>

definition analyze_codebase_parallel ::
  "ext \<Rightarrow> rag \<Rightarrow> node \<Rightarrow> (path list \<Rightarrow> path list) \<Rightarrow> int \<Rightarrow> error + ((string \<times> json) list \<times> node)" where
  "analyze_codebase_parallel x self fs completion max_workers =
     (let files = scan_codebase self fs;
          cache = load_cache x self fs
      in if max_workers \<le> 0 then Inl ValueError
         else (let results = collect x self fs cache (completion files) []
               in Inr (results, save_cache x self fs (JDict results))))"

subsection \<open>Document assembly\<close>

text \<open>\<open>v[:n]\<close> and the text an f-string puts for \<open>{v}\<close>.\<close>

fun py_slice :: "nat \<Rightarrow> json \<Rightarrow> error + json" where
  "py_slice n (JStr s) = Inr (JStr (take n s))"
| "py_slice n (JList l) = Inr (JList (take n l))"
| "py_slice n _ = Inl TypeError"

fun py_format :: "ext \<Rightarrow> json \<Rightarrow> string" where
  "py_format x (JStr s) = s"
| "py_format x v = py_str x v"

text \<open>The loop of \<open>generate_project_overview\<close> that fills \<open>file_summaries\<close>.\<close>

fun file_summaries :: "ext \<Rightarrow> (string \<times> json) list \<Rightarrow> error + string list" where
  "file_summaries x [] = Inr []"
| "file_summaries x ((path, result) # rest) =
     (case py_contains result ''analysis'' of
        Inl e \<Rightarrow> Inl e
      | Inr present \<Rightarrow>
          if \<not> present then file_summaries x rest
          else (case py_getitem result ''analysis'' of
                  Inl e \<Rightarrow> Inl e
                | Inr a \<Rightarrow>
                    (case py_slice 300 a of
                       Inl e \<Rightarrow> Inl e
                     | Inr a300 \<Rightarrow>
                         (case file_summaries x rest of
                            Inl e \<Rightarrow> Inl e
                          | Inr others \<Rightarrow>
                              Inr ((''File: '' @ path @ nl @ ''Analysis: '' @ py_format x a300 @ ''...'')
                                   # others)))))"

definition overview_prompt :: "string \<Rightarrow> string" where
  "overview_prompt summaries_text =
     ''Based on the following code analysis, generate a comprehensive project overview:'' @ nl @ nl @
     summaries_text @ nl @ nl @
     ''Please provide:'' @ nl @
     ''1. Project name and main purpose'' @ nl @
     ''2. Architecture overview'' @ nl @
     ''3. Key technologies and frameworks used'' @ nl @
     ''4. Main components and their relationships'' @ nl @
     ''5. Project structure explanation'' @ nl @ nl @
     ''Format as a well-structured markdown overview.''"

definition generate_project_overview ::
  "ext \<Rightarrow> (string \<times> json) list \<Rightarrow> (error + string) \<times> string list" where
  "generate_project_overview x analysis_results =
     (case file_summaries x analysis_results of
        Inl e \<Rightarrow> (Inl e, [])
      | Inr summaries \<Rightarrow>
          (let prompt = overview_prompt (join (nl @ nl) (take 20 summaries))
           in (ask_llm x prompt, [prompt])))"

text \<open>\<open>Path(s).stem\<close> for a string: the stem of the last component that is neither
  empty nor a single dot.\<close>

fun split_on :: "char \<Rightarrow> string \<Rightarrow> string list" where
  "split_on sep [] = [[]]"
| "split_on sep (c # s) =
     (if c = sep then [] # split_on sep s
      else (case split_on sep s of [] \<Rightarrow> [[c]] | h # t \<Rightarrow> (c # h) # t))"

definition str_stem :: "string \<Rightarrow> string" where
  "str_stem s =
     (let parts = filter (\<lambda>c. c \<noteq> [] \<and> c \<noteq> ''.'') (split_on (CHR ''/'') s)
      in name_stem (if parts = [] then [] else last parts))"

text \<open>The test \<open>'analysis' in analysis and analysis['analysis']\<close>.\<close>

definition wants_doc :: "json \<Rightarrow> error + bool" where
  "wants_doc analysis =
     (case py_contains analysis ''analysis'' of
        Inl e \<Rightarrow> Inl e
      | Inr present \<Rightarrow>
          if \<not> present then Inr False
          else (case py_getitem analysis ''analysis'' of
                  Inl e \<Rightarrow> Inl e
                | Inr a \<Rightarrow> Inr (py_truthy a)))"

definition doc_prompt :: "ext \<Rightarrow> string \<Rightarrow> json \<Rightarrow> error + string" where
  "doc_prompt x file_path analysis =
     (case py_getitem analysis ''analysis'' of
        Inl e \<Rightarrow> Inl e
      | Inr a \<Rightarrow>
          (case py_get analysis ''content_preview'' (JStr []) of
             Inl e \<Rightarrow> Inl e
           | Inr preview \<Rightarrow>
               Inr (''Create detailed documentation for this code component:'' @ nl @ nl @
                    ''File: '' @ file_path @ nl @
                    ''Analysis: '' @ py_format x a @ nl @
                    ''Code preview: '' @ py_format x preview @ nl @ nl @
                    ''Generate comprehensive documentation including:'' @ nl @
                    ''1. Purpose and functionality'' @ nl @
                    ''2. Key methods/functions with descriptions'' @ nl @
                    ''3. Usage examples where applicable'' @ nl @
                    ''4. Dependencies and relationships'' @ nl @
                    ''5. Configuration options if any'' @ nl @ nl @
                    ''Format as clean markdown.'')))"

text \<open>A write that raises is printed and swallowed.\<close>

definition write_or_skip :: "node \<Rightarrow> path \<Rightarrow> string \<Rightarrow> node" where
  "write_or_skip fs p bytes = (case open_write fs p bytes of Inl e \<Rightarrow> fs | Inr fs' \<Rightarrow> fs')"

text \<open>The loop of \<open>generate_component_docs\<close>: the exception that ended it, if any,
  the file system it leaves (documents written before an exception stay), and the
  prompts sent.\<close>

fun component_docs_loop ::
  "ext \<Rightarrow> path \<Rightarrow> node \<Rightarrow> (string \<times> json) list \<Rightarrow> (error option \<times> node) \<times> string list" where
  "component_docs_loop x docs_dir fs [] = ((None, fs), [])"
| "component_docs_loop x docs_dir fs ((file_path, analysis) # rest) =
     (case wants_doc analysis of
        Inl e \<Rightarrow> ((Some e, fs), [])
      | Inr wanted \<Rightarrow>
          if \<not> wanted then component_docs_loop x docs_dir fs rest
          else (case doc_prompt x file_path analysis of
                  Inl e \<Rightarrow> ((Some e, fs), [])
                | Inr prompt \<Rightarrow>
                    (case ask_llm x prompt of
                       Inl e \<Rightarrow> ((Some e, fs), [prompt])
                     | Inr doc_content \<Rightarrow>
                         (let doc_file = docs_dir @ [str_stem file_path @ ''.md''];
                              fs' = write_or_skip fs doc_file (write_text x doc_content);
                              r = component_docs_loop x docs_dir fs' rest
                          in (fst r, prompt # snd r)))))"

definition generate_component_docs ::
  "ext \<Rightarrow> rag \<Rightarrow> node \<Rightarrow> (string \<times> json) list \<Rightarrow> (error option \<times> node) \<times> string list" where
  "generate_component_docs x self fs analysis_results =
     (let docs_dir = root_path self @ [''docs'']
      in case mkdir_exist_ok fs docs_dir of
           Inl e \<Rightarrow> ((Some e, fs), [])
         | Inr fs' \<Rightarrow> component_docs_loop x docs_dir fs' analysis_results)"

text \<open>
  Step 4 of \<open>generate_all_documentation\<close>. The filter of \<open>api_files\<close> is
  \<open>'api' in k.lower() or 'endpoint' in v.get('analysis', '').lower()\<close>; the second
  operand is evaluated only when the first is false.
\<close>

definition api_match :: "string \<Rightarrow> json \<Rightarrow> error + bool" where
  "api_match k v =
     (if py_in_str ''api'' (lower k) then Inr True
      else (case py_get v ''analysis'' (JStr []) of
              Inl e \<Rightarrow> Inl e
            | Inr (JStr s) \<Rightarrow> Inr (py_in_str ''endpoint'' (lower s))
            | Inr _ \<Rightarrow> Inl AttributeError))"

fun api_files :: "(string \<times> json) list \<Rightarrow> error + string list" where
  "api_files [] = Inr []"
| "api_files ((k, v) # rest) =
     (case api_match k v of
        Inl e \<Rightarrow> Inl e
      | Inr hit \<Rightarrow>
          (case api_files rest of
             Inl e \<Rightarrow> Inl e
           | Inr ks \<Rightarrow> Inr (if hit then k # ks else ks)))"

fun api_lines :: "ext \<Rightarrow> (string \<times> json) list \<Rightarrow> string list \<Rightarrow> error + string list" where
  "api_lines x analysis_results [] = Inr []"
| "api_lines x analysis_results (f # fs) =
     (case map_of analysis_results f of
        None \<Rightarrow> Inl KeyError
      | Some v \<Rightarrow>
          (case py_get v ''analysis'' (JStr []) of
             Inl e \<Rightarrow> Inl e
           | Inr a \<Rightarrow>
               (case py_slice 200 a of
                  Inl e \<Rightarrow> Inl e
                | Inr a200 \<Rightarrow>
                    (case api_lines x analysis_results fs of
                       Inl e \<Rightarrow> Inl e
                     | Inr others \<Rightarrow>
                         Inr ((''File: '' @ f @ '', Analysis: '' @ py_format x a200 @ ''...'') # others)))))"

definition api_prompt :: "ext \<Rightarrow> (string \<times> json) list \<Rightarrow> string list \<Rightarrow> error + string" where
  "api_prompt x analysis_results files =
     (case api_lines x analysis_results (take 5 files) of
        Inl e \<Rightarrow> Inl e
      | Inr ls \<Rightarrow>
          Inr (''Generate API documentation based on these files:'' @ nl @ nl @
               join nl ls @ nl @ nl @
               ''Create comprehensive API documentation with endpoints, parameters, and examples.''))"

definition api_file :: "rag \<Rightarrow> path" where
  "api_file self = root_path self @ [''API_DOCUMENTATION.md'']"

definition api_documentation ::
  "ext \<Rightarrow> rag \<Rightarrow> node \<Rightarrow> (string \<times> json) list \<Rightarrow> (error + node) \<times> string list" where
  "api_documentation x self fs analysis_results =
     (case api_files analysis_results of
        Inl e \<Rightarrow> (Inl e, [])
      | Inr files \<Rightarrow>
          if files = [] then (Inr fs, [])
          else (case api_prompt x analysis_results files of
                  Inl e \<Rightarrow> (Inl e, [])
                | Inr prompt \<Rightarrow>
                    (case ask_llm x prompt of
                       Inl e \<Rightarrow> (Inl e, [prompt])
                     | Inr api_docs \<Rightarrow>
                         (Inr (write_or_skip fs (api_file self) (write_text x api_docs)), [prompt]))))"

subsection \<open>Predicates used in the properties\<close>


text \<open>What one completed future adds to \<open>results\<close>: nothing when the call raised.\<close>

definition outcome :: "ext \<Rightarrow> rag \<Rightarrow> node \<Rightarrow> json \<Rightarrow> path \<Rightarrow> (string \<times> json) option" where
  "outcome x self fs cache file_path =
     (case fst (analyze_file x self fs file_path cache) of
        Inl e \<Rightarrow> None
      | Inr result \<Rightarrow>
          (case relative_to file_path (root_path self) of
             Inl e \<Rightarrow> None
           | Inr rel \<Rightarrow> Some (rel_str rel, result)))"

text \<open>No entry of the tree has a slash in its name, as in every POSIX file system.\<close>

fun names_ok :: "node \<Rightarrow> bool" where
  "names_ok (Dir cs) = (\<forall>(n, t) \<in> set cs. CHR ''/'' \<notin> set n \<and> names_ok t)"
| "names_ok (File b) = True"
| "names_ok NoRead = True"

text \<open>
  The condition of step 4 on one entry of the result map, as a predicate: the key
  contains \<open>api\<close>, or the record's analysis is a string that contains \<open>endpoint\<close>,
  both after lower-casing.
\<close>

definition mentions_api :: "string \<Rightarrow> json \<Rightarrow> bool" where
  "mentions_api k v =
     (py_in_str ''api'' (lower k) \<or>
      (case v of
         JDict d \<Rightarrow> (case map_of d ''analysis'' of
                       Some (JStr s) \<Rightarrow> py_in_str ''endpoint'' (lower s)
                     | _ \<Rightarrow> False)
       | _ \<Rightarrow> False))"

subsection \<open>Concrete inputs\<close>

text \<open>
  Stand-ins for the external capabilities, used where a property is evaluated on a
  concrete project: a digest that is never empty, an identity text layer, a JSON
  codec given by a table of the documents it knows (besides the empty object), and a
  generation capability given as a parameter.
\<close>

definition stub_ext :: "(string \<Rightarrow> error + string) \<Rightarrow> (string \<times> json) list \<Rightarrow> ext" where
  "stub_ext llm docs =
     \<lparr>md5_hexdigest = (\<lambda>b. ''md5-'' @ b),
      read_text = (\<lambda>b. b),
      write_text = (\<lambda>s. s),
      json_dump = (\<lambda>v. case find (\<lambda>(b, d). d = v) docs of Some (b, d) \<Rightarrow> b | None \<Rightarrow> ''{}''),
      json_load = (\<lambda>b. case map_of docs b of
                           Some d \<Rightarrow> Inr d
                         | None \<Rightarrow> if b = ''{}'' then Inr (JDict []) else Inl JSONDecodeError),
      ask_llm = llm,
      py_str = (\<lambda>v. ''?'')\<rparr>"

definition llm_ok :: "string \<Rightarrow> error + string" where
  "llm_ok prompt = Inr ''summary''"

definition llm_down :: "string \<Rightarrow> error + string" where
  "llm_down prompt = Inl (GenerationError ''down'')"

definition llm_partial :: "string \<Rightarrow> error + string" where
  "llm_partial prompt =
     (if py_in_str ''File: a.py'' prompt then Inl (GenerationError ''down'') else Inr ''summary'')"

definition demo_rag :: rag where
  "demo_rag = \<lparr>root_path = [''r''], cache_dir = [''r'', ''.rag_cache'']\<rparr>"

definition demo_fs :: node where
  "demo_fs = Dir [(''r'', Dir [(''a.py'', File ''x = 1''), (''b.py'', NoRead)])]"

definition demo_record :: "(string \<times> json) list" where
  "demo_record =
     [(''hash'', JStr ''md5-x = 1''), (''path'', JStr ''a.py''), (''analysis'', JStr ''old'')]"

definition stale_record :: "(string \<times> json) list" where
  "stale_record =
     [(''hash'', JStr []), (''path'', JStr ''b.py''), (''analysis'', JStr ''stale'')]"

definition run_fs :: node where
  "run_fs = Dir [(''r'', Dir [(''a.py'', File ''x = 1''), (''b.PY'', File ''y = 2''),
                              (''.rag_cache'', Dir [(''analysis_cache.json'', File ''old'')]),
                              (''notes.txt'', File ''n'')])]"




definition deps_fs :: node where
  "deps_fs = Dir [(''r'', Dir [(''a.py'', File ''x = 1''),
                               (''node_modules'', Dir [(''lib.js'', File ''y'')]),
                               (''src'', Dir [(''Main.JS'', File ''z''), (''debug.log'', File ''l'')])])]"

definition venv_rag :: rag where
  "venv_rag = \<lparr>root_path = [''home'', ''venv''], cache_dir = [''home'', ''venv'', ''.rag_cache'']\<rparr>"

definition venv_fs :: node where
  "venv_fs = Dir [(''home'', Dir [(''venv'', Dir [(''a.py'', File ''x = 1'')])])]"

definition api_results :: "(string \<times> json) list" where
  "api_results =
     [(''main.py'', JDict [(''hash'', JStr ''h1''), (''analysis'', JStr ''Entry point'')]),
      (''routes.py'', JDict [(''hash'', JStr ''h2''), (''analysis'', JStr ''Defines the Endpoint table'')])]"

definition prose_results :: "(string \<times> json) list" where
  "prose_results =
     [(''main.py'', JDict [(''hash'', JStr ''h1''), (''analysis'', JStr ''A REST API server'')]),
      (''endpoint.py'', JDict [(''hash'', JStr ''h2''), (''analysis'', JStr ''Routing'')])]"


section \<open>Properties\<close>

subsection \<open>The cache test\<close>

lemma cache_lookup_dict:
  "cache_lookup (JDict c) key h =
     (case map_of c key of
        None \<Rightarrow> Inr None
      | Some (JDict r) \<Rightarrow>
          if map_of r ''hash'' = Some (JStr h) then Inr (Some (JDict r)) else Inr None
      | Some _ \<Rightarrow> Inl AttributeError)"
  by (auto simp add: cache_lookup_def split: option.splits json.splits)

lemma get_file_hash_unreadable:
  "open_read fs file_path = Inl e \<Longrightarrow> get_file_hash x fs file_path = []"
  by (simp add: get_file_hash_def)

text \<open>
  C1. When the cache is a dictionary that holds, under the relative path of the file,
  a record whose stored \<open>hash\<close> is the file's current fingerprint, \<open>analyze_file\<close>
  returns that very record and sends no prompt to the generation capability.
\<close>

theorem analyze_file_cache_hit:
  assumes "relative_to file_path (root_path self) = Inr rel"
      and "map_of c (rel_str rel) = Some (JDict r)"
      and "map_of r ''hash'' = Some (JStr (get_file_hash x fs file_path))"
  shows "analyze_file x self fs file_path (JDict c) = (Inr (JDict r), [])"
  using assms by (simp add: analyze_file_def cache_lookup_dict)

theorem analyze_file_cache_hit_witness:
  "relative_to [''r'', ''a.py''] (root_path demo_rag) = Inr [''a.py''] \<and>
   map_of [(''a.py'', JDict demo_record)] (rel_str [''a.py'']) = Some (JDict demo_record) \<and>
   map_of demo_record ''hash''
     = Some (JStr (get_file_hash (stub_ext llm_ok []) demo_fs [''r'', ''a.py''])) \<and>
   analyze_file (stub_ext llm_ok []) demo_rag demo_fs [''r'', ''a.py'']
       (JDict [(''a.py'', JDict demo_record)])
     = (Inr (JDict demo_record), [])"
proof -
  have 1: "relative_to [''r'', ''a.py''] (root_path demo_rag) = Inr [''a.py'']"
    by (simp add: relative_to_def demo_rag_def)
  have 2: "map_of [(''a.py'', JDict demo_record)] (rel_str [''a.py'']) = Some (JDict demo_record)"
    by (simp add: rel_str_def)
  have 3: "map_of demo_record ''hash''
             = Some (JStr (get_file_hash (stub_ext llm_ok []) demo_fs [''r'', ''a.py'']))"
    by (simp add: demo_record_def get_file_hash_def open_read_def demo_fs_def stub_ext_def)
  from analyze_file_cache_hit [OF 1 2 3] 1 2 3 show ?thesis by simp
qed

text \<open>
  C2, as the code has it. A file that cannot be opened gets the empty string as its
  fingerprint; \<open>get_file_hash\<close> does not raise. The cache test compares fingerprints
  and nothing else, so with a dictionary cache the empty fingerprint hits exactly when
  the entry under the relative path is a record whose stored \<open>hash\<close> is the empty
  string too: that record is returned. With no entry, or a record with any other
  stored hash, the file is a miss and the error record is returned.
\<close>

theorem sentinel_fingerprint:
  assumes "open_read fs file_path = Inl e"
      and "relative_to file_path (root_path self) = Inr rel"
  shows "get_file_hash x fs file_path = [] \<and>
         analyze_file x self fs file_path (JDict c) =
           (case map_of c (rel_str rel) of
              None \<Rightarrow> (Inr (error_record []), [])
            | Some (JDict r) \<Rightarrow>
                if map_of r ''hash'' = Some (JStr []) then (Inr (JDict r), [])
                else (Inr (error_record []), [])
            | Some _ \<Rightarrow> (Inl AttributeError, []))"
  using assms
  by (auto simp add: analyze_file_def cache_lookup_dict get_file_hash_unreadable
           split: option.splits json.splits)

theorem sentinel_fingerprint_witness:
  "open_read demo_fs [''r'', ''b.py''] = Inl PermissionError \<and>
   relative_to [''r'', ''b.py''] (root_path demo_rag) = Inr [''b.py''] \<and>
   get_file_hash (stub_ext llm_ok []) demo_fs [''r'', ''b.py''] = [] \<and>
   analyze_file (stub_ext llm_ok []) demo_rag demo_fs [''r'', ''b.py'']
       (JDict [(''a.py'', JDict demo_record)])
     = (Inr (error_record []), [])"
proof -
  have 1: "open_read demo_fs [''r'', ''b.py''] = Inl PermissionError"
    by (simp add: open_read_def demo_fs_def)
  have 2: "relative_to [''r'', ''b.py''] (root_path demo_rag) = Inr [''b.py'']"
    by (simp add: relative_to_def demo_rag_def)
  from sentinel_fingerprint [OF 1 2, of "stub_ext llm_ok []" "[(''a.py'', JDict demo_record)]"] 1 2
  show ?thesis by (simp add: rel_str_def)
qed

text \<open>
  The file \<open>b.py\<close> cannot be opened and the cache holds a record for it whose stored
  hash is the empty string: the test is a hit and the stale record comes back.
\<close>

theorem sentinel_hit_counterexample:
  "open_read demo_fs [''r'', ''b.py''] = Inl PermissionError \<and>
   get_file_hash (stub_ext llm_ok []) demo_fs [''r'', ''b.py''] = [] \<and>
   cache_lookup (JDict [(''b.py'', JDict stale_record)]) ''b.py'' []
     = Inr (Some (JDict stale_record)) \<and>
   analyze_file (stub_ext llm_ok []) demo_rag demo_fs [''r'', ''b.py'']
       (JDict [(''b.py'', JDict stale_record)])
     = (Inr (JDict stale_record), [])"
  by (simp add: open_read_def demo_fs_def get_file_hash_def cache_lookup_def stale_record_def
        analyze_file_def relative_to_def demo_rag_def rel_str_def)

subsection \<open>Reading back what was written\<close>

lemma lookup_put_same:
  "p \<noteq> [] \<Longrightarrow> lookup fs (butlast p) = Some (Dir ds) \<Longrightarrow> lookup (put fs p new) p = Some new"
proof (induction fs p new arbitrary: ds rule: put.induct)
  case (2 cs c p new)
  show ?case
  proof (cases "p = []")
    case True
    then show ?thesis by (simp add: update_conv' split: option.splits)
  next
    case False
    with 2 show ?thesis
      by (auto simp add: update_conv' split: option.splits)
  qed
qed (simp_all split: if_splits)

lemma lookup_parent:
  "lookup fs p = Some n \<Longrightarrow> p \<noteq> [] \<Longrightarrow> \<exists>ds. lookup fs (butlast p) = Some (Dir ds)"
proof (induction fs p arbitrary: n rule: lookup.induct)
  case (2 cs c p)
  then show ?case by (cases "p = []") (auto split: option.splits)
qed simp_all














text \<open>The same for every root that does not exist.\<close>

lemma init_missing_root:
  "lookup fs root = None \<Longrightarrow> init fs root = Inl FileNotFoundError"
proof -
  assume n: "lookup fs root = None"
  have "lookup fs (root @ [''.rag_cache'']) = None"
  proof (cases "lookup fs (root @ [''.rag_cache''])")
    case None
    then show ?thesis .
  next
    case (Some m)
    from lookup_parent [OF Some] n show ?thesis by simp
  qed
  with n show ?thesis by (simp add: init_def mkdir_exist_ok_def)
qed

subsection \<open>The scanner\<close>

lemma walk_Dir_mem:
  "f \<in> set (walk root (Dir cs)) \<longleftrightarrow>
     (\<exists>filename t. (filename, t) \<in> set cs \<and> \<not> is_dir t \<and> f = root @ [filename] \<and> eligible f) \<or>
     (\<exists>d t. (d, t) \<in> set cs \<and> is_dir t \<and> \<not> should_ignore (root @ [d]) \<and> f \<in> set (walk (root @ [d]) t))"
  by (auto split: if_splits)

lemma walk_sound:
  "f \<in> set (walk root n) \<Longrightarrow>
   eligible f \<and> strict_prefix root f \<and>
   (\<forall>d. strict_prefix root d \<and> prefix d f \<longrightarrow> \<not> should_ignore d)"
proof (induction root n arbitrary: f rule: walk.induct)
  case (1 root cs)
  from "1.prems" consider
      (leaf) filename t where "(filename, t) \<in> set cs" "f = root @ [filename]" "eligible f"
    | (deeper) d t where "(d, t) \<in> set cs" "is_dir t" "\<not> should_ignore (root @ [d])"
        "f \<in> set (walk (root @ [d]) t)"
    unfolding walk_Dir_mem by blast
  then show ?case
  proof cases
    case leaf
    have "\<forall>d. strict_prefix root d \<and> prefix d f \<longrightarrow> d = f"
    proof (intro allI impI)
      fix d assume d: "strict_prefix root d \<and> prefix d f"
      then obtain e where e: "d = root @ e" "e \<noteq> []"
        by (auto simp add: strict_prefix_def prefix_def)
      with d leaf(2) have "prefix e [filename]" by simp
      with e(2) have "e = [filename]" by (cases e) auto
      with e leaf(2) show "d = f" by simp
    qed
    moreover from leaf(2) have "strict_prefix root f" by (simp add: strict_prefix_def)
    ultimately show ?thesis using leaf(3) by (auto simp add: eligible_def)
  next
    case deeper
    from deeper(2,3) have "is_dir t \<and> \<not> should_ignore (root @ [d])" by simp
    from "1.IH" [OF deeper(1) refl this deeper(4)]
    have ih: "eligible f" "strict_prefix (root @ [d]) f"
      "\<forall>d'. strict_prefix (root @ [d]) d' \<and> prefix d' f \<longrightarrow> \<not> should_ignore d'" by auto
    from ih(2) obtain rest where rest: "f = root @ d # rest"
      by (auto simp add: strict_prefix_def prefix_def)
    have "\<forall>d'. strict_prefix root d' \<and> prefix d' f \<longrightarrow> \<not> should_ignore d'"
    proof (intro allI impI)
      fix d' assume d': "strict_prefix root d' \<and> prefix d' f"
      then obtain e where e: "d' = root @ e" "e \<noteq> []"
        by (auto simp add: strict_prefix_def prefix_def)
      with d' rest have "prefix e (d # rest)" by simp
      with e(2) obtain e' where e': "e = d # e'" "prefix e' rest" by (cases e) auto
      show "\<not> should_ignore d'"
      proof (cases "e' = []")
        case True
        with e e' deeper(3) show ?thesis by simp
      next
        case False
        with e e' rest have "strict_prefix (root @ [d]) d' \<and> prefix d' f"
          by (auto simp add: strict_prefix_def)
        with ih(3) show ?thesis by blast
      qed
    qed
    moreover from rest have "strict_prefix root f" by (simp add: strict_prefix_def)
    ultimately show ?thesis using ih(1) by simp
  qed
qed simp_all

text \<open>
  C4, as the code has it. Every path the scanner yields is not ignored and has its
  lower-cased suffix in the allow-list, and no directory strictly below the root on
  the way to it is ignored: the walk does not enter an ignored subdirectory, whatever
  lies beneath. The root itself is where the walk starts and is not tested.
\<close>

theorem scan_excludes_ignored:
  assumes "p \<in> set (scan_codebase self fs)"
  shows "\<not> should_ignore p \<and>
         lower (name_suffix (path_name p)) \<in> set code_extensions \<and>
         (\<forall>d. strict_prefix (root_path self) d \<and> prefix d p \<longrightarrow> \<not> should_ignore d)"
proof -
  from assms obtain n where "p \<in> set (walk (root_path self) n)"
    by (cases "lookup fs (root_path self)") (auto simp add: scan_codebase_def)
  from walk_sound [OF this] show ?thesis by (simp add: eligible_def)
qed

lemma scan_deps_fs: "scan_codebase demo_rag deps_fs = [[''r'', ''a.py''], [''r'', ''src'', ''Main.JS'']]"
  by (simp add: scan_codebase_def demo_rag_def deps_fs_def eligible_def should_ignore_def
      ignore_patterns_def path_name_def path_str_def name_suffix_def rfind_dot_def lower_def
      lower_char_def code_extensions_def)

theorem scan_excludes_ignored_witness:
  "[''r'', ''src'', ''Main.JS''] \<in> set (scan_codebase demo_rag deps_fs) \<and>
   \<not> should_ignore [''r'', ''src'', ''Main.JS''] \<and>
   lower (name_suffix (path_name [''r'', ''src'', ''Main.JS''])) \<in> set code_extensions \<and>
   \<not> should_ignore [''r'', ''src''] \<and>
   should_ignore [''r'', ''node_modules''] \<and>
   [''r'', ''node_modules'', ''lib.js''] \<notin> set (scan_codebase demo_rag deps_fs)"
proof -
  have 1: "[''r'', ''src'', ''Main.JS''] \<in> set (scan_codebase demo_rag deps_fs)"
    by (simp add: scan_deps_fs)
  have 2: "strict_prefix (root_path demo_rag) [''r'', ''src''] \<and> prefix [''r'', ''src''] [''r'', ''src'', ''Main.JS'']"
    by (simp add: demo_rag_def strict_prefix_def)
  have 3: "should_ignore [''r'', ''node_modules'']"
    by (simp add: should_ignore_def ignore_patterns_def path_name_def path_str_def)
  have 4: "[''r'', ''node_modules'', ''lib.js''] \<notin> set (scan_codebase demo_rag deps_fs)"
    by (simp add: scan_deps_fs)
  from scan_excludes_ignored [OF 1] 1 2 3 4 show ?thesis by blast
qed

text \<open>
  A root directory named \<open>venv\<close> matches an ignore pattern, and the file beneath it
  is scanned all the same.
\<close>

theorem ignored_root_counterexample:
  "should_ignore [''home'', ''venv''] \<and>
   lookup venv_fs [''home'', ''venv''] = Some (Dir [(''a.py'', File ''x = 1'')]) \<and>
   scan_codebase venv_rag venv_fs = [[''home'', ''venv'', ''a.py'']]"
  by (simp add: scan_codebase_def venv_rag_def venv_fs_def eligible_def should_ignore_def
      ignore_patterns_def path_name_def path_str_def name_suffix_def rfind_dot_def lower_def
      lower_char_def code_extensions_def)

text \<open>The relative paths of scanned files, as strings, determine the files.\<close>

lemma takeWhile_join:
  "CHR ''/'' \<notin> set c \<Longrightarrow> takeWhile (\<lambda>ch. ch \<noteq> CHR ''/'') (join ''/'' (c # cs)) = c"
  by (cases cs) (auto simp add: takeWhile_tail takeWhile_eq_all_conv)

lemma dropWhile_join:
  "CHR ''/'' \<notin> set c \<Longrightarrow>
   dropWhile (\<lambda>ch. ch \<noteq> CHR ''/'') (join ''/'' (c # cs)) = (if cs = [] then [] else CHR ''/'' # join ''/'' cs)"
  by (cases cs) (auto simp add: dropWhile_append3 dropWhile_eq_Nil_conv)

lemma join_inj:
  "xs \<noteq> [] \<Longrightarrow> ys \<noteq> [] \<Longrightarrow> \<forall>c \<in> set xs. CHR ''/'' \<notin> set c \<Longrightarrow> \<forall>c \<in> set ys. CHR ''/'' \<notin> set c \<Longrightarrow>
   join ''/'' xs = join ''/'' ys \<Longrightarrow> xs = ys"
proof (induction xs arbitrary: ys)
  case Nil
  then show ?case by simp
next
  case (Cons c cs)
  then obtain d ds where ys: "ys = d # ds" by (cases ys) auto
  have c: "CHR ''/'' \<notin> set c" and d: "CHR ''/'' \<notin> set d" using Cons.prems ys by auto
  have eq: "join ''/'' (c # cs) = join ''/'' (d # ds)" using Cons.prems ys by simp
  from arg_cong [OF eq, of "takeWhile (\<lambda>ch. ch \<noteq> CHR ''/'')"] have cd: "c = d"
    by (simp add: takeWhile_join c d)
  from arg_cong [OF eq, of "dropWhile (\<lambda>ch. ch \<noteq> CHR ''/'')"]
  have rest: "(if cs = [] then [] else CHR ''/'' # join ''/'' cs) = (if ds = [] then [] else CHR ''/'' # join ''/'' ds)"
    by (simp only: dropWhile_join [OF c] dropWhile_join [OF d])
  show ?case
  proof (cases "cs = []")
    case True
    with rest have "ds = []" by (auto split: if_splits)
    with True cd ys show ?thesis by simp
  next
    case False
    with rest have ds: "ds \<noteq> []" and j: "join ''/'' cs = join ''/'' ds" by (auto split: if_splits)
    have "cs = ds"
      by (rule Cons.IH [OF False ds _ _ j]) (use Cons.prems ys in auto)
    with cd ys show ?thesis by simp
  qed
qed

lemma walk_paths:
  "names_ok n \<Longrightarrow> f \<in> set (walk root n) \<Longrightarrow>
   \<exists>rel. f = root @ rel \<and> rel \<noteq> [] \<and> (\<forall>c \<in> set rel. CHR ''/'' \<notin> set c)"
proof (induction root n arbitrary: f rule: walk.induct)
  case (1 root cs)
  from "1.prems"(2) consider
      (leaf) filename t where "(filename, t) \<in> set cs" "f = root @ [filename]"
    | (deeper) d t where "(d, t) \<in> set cs" "is_dir t" "\<not> should_ignore (root @ [d])" "f \<in> set (walk (root @ [d]) t)"
    unfolding walk_Dir_mem by blast
  then show ?case
  proof cases
    case leaf
    with "1.prems"(1) show ?thesis by auto
  next
    case deeper
    from deeper(1) "1.prems"(1) have ok: "names_ok t" and d: "CHR ''/'' \<notin> set d" by auto
    from deeper(2,3) have "is_dir t \<and> \<not> should_ignore (root @ [d])" by simp
    from "1.IH" [OF deeper(1) refl this ok deeper(4)]
    obtain rel where "f = (root @ [d]) @ rel" "\<forall>c \<in> set rel. CHR ''/'' \<notin> set c" by auto
    with d show ?thesis by (intro exI [of _ "d # rel"]) auto
  qed
qed simp_all

lemma names_ok_lookup:
  "names_ok fs \<Longrightarrow> lookup fs p = Some n \<Longrightarrow> names_ok n"
proof (induction fs p arbitrary: n rule: lookup.induct)
  case (2 cs c p)
  then show ?case by (auto split: option.splits dest!: map_of_SomeD)
qed simp_all

lemma scan_paths:
  assumes "names_ok fs" and "f \<in> set (scan_codebase self fs)"
  shows "\<exists>rel. f = root_path self @ rel \<and> rel \<noteq> [] \<and> (\<forall>c \<in> set rel. CHR ''/'' \<notin> set c)"
proof -
  from assms(2) obtain n where n: "lookup fs (root_path self) = Some n" "f \<in> set (walk (root_path self) n)"
    by (cases "lookup fs (root_path self)") (auto simp add: scan_codebase_def)
  from names_ok_lookup [OF assms(1) n(1)] have "names_ok n" .
  from walk_paths [OF this n(2)] show ?thesis .
qed

lemma relative_to_append: "relative_to (root @ rel) root = Inr rel"
  by (simp add: relative_to_def)

subsection \<open>The dispatcher\<close>

lemma collect_Cons:
  "collect x self fs cache (f # rest) acc =
     collect x self fs cache rest
       (case outcome x self fs cache f of None \<Rightarrow> acc | Some (k, r) \<Rightarrow> AList.update k r acc)"
  by (simp add: outcome_def split: sum.splits)


lemma collect_complete:
  "(\<forall>g \<in> set order. \<forall>r'. outcome x self fs cache g = Some (k, r') \<longrightarrow> r' = r) \<Longrightarrow>
   map_of acc k = Some r \<or> (\<exists>f \<in> set order. outcome x self fs cache f = Some (k, r)) \<Longrightarrow>
   map_of (collect x self fs cache order acc) k = Some r"
proof (induction order arbitrary: acc)
  case Nil
  then show ?case by simp
next
  case (Cons f rest)
  let ?acc' = "case outcome x self fs cache f of None \<Rightarrow> acc | Some (k, r) \<Rightarrow> AList.update k r acc"
  have 1: "\<forall>g \<in> set rest. \<forall>r'. outcome x self fs cache g = Some (k, r') \<longrightarrow> r' = r"
    using Cons.prems(1) by simp
  have 2: "map_of ?acc' k = Some r \<or> (\<exists>f \<in> set rest. outcome x self fs cache f = Some (k, r))"
    using Cons.prems by (auto simp add: update_conv' split: option.splits)
  from Cons.IH [OF 1 2] show ?case by (simp only: collect_Cons)
qed

lemma collect_none:
  "map_of acc k = None \<Longrightarrow>
   (\<forall>f \<in> set order. \<forall>r. outcome x self fs cache f \<noteq> Some (k, r)) \<Longrightarrow>
   map_of (collect x self fs cache order acc) k = None"
proof (induction order arbitrary: acc)
  case Nil
  then show ?case by simp
next
  case (Cons f rest)
  let ?acc' = "case outcome x self fs cache f of None \<Rightarrow> acc | Some (k, r) \<Rightarrow> AList.update k r acc"
  have 1: "map_of ?acc' k = None"
  proof (cases "outcome x self fs cache f")
    case None
    with Cons.prems(1) show ?thesis by simp
  next
    case (Some kr)
    obtain k' r' where kr: "kr = (k', r')" by (cases kr)
    from Cons.prems(2) have "outcome x self fs cache f \<noteq> Some (k, r')" by simp
    with Some kr have "k' \<noteq> k" by auto
    with Some kr Cons.prems(1) show ?thesis by (simp add: update_conv')
  qed
  have 2: "\<forall>f \<in> set rest. \<forall>r. outcome x self fs cache f \<noteq> Some (k, r)"
    using Cons.prems(2) by simp
  from Cons.IH [OF 1 2] show ?case by (simp only: collect_Cons)
qed

lemma collect_order_independent:
  assumes cons: "\<forall>f \<in> S. \<forall>g \<in> S. \<forall>k r r'.
            outcome x self fs cache f = Some (k, r) \<and> outcome x self fs cache g = Some (k, r') \<longrightarrow> r = r'"
      and "set o1 = S" and "set o2 = S"
  shows "map_of (collect x self fs cache o1 []) = map_of (collect x self fs cache o2 [])"
proof
  fix k
  show "map_of (collect x self fs cache o1 []) k = map_of (collect x self fs cache o2 []) k"
  proof (cases "\<exists>f \<in> S. \<exists>r. outcome x self fs cache f = Some (k, r)")
    case True
    then obtain f r where f: "f \<in> S" "outcome x self fs cache f = Some (k, r)" by blast
    have u: "\<forall>g \<in> S. \<forall>r'. outcome x self fs cache g = Some (k, r') \<longrightarrow> r' = r"
      using cons f by blast
    have "map_of (collect x self fs cache o1 []) k = Some r"
    proof (rule collect_complete)
      show "\<forall>g \<in> set o1. \<forall>r'. outcome x self fs cache g = Some (k, r') \<longrightarrow> r' = r"
        using u assms(2) by simp
      show "map_of [] k = Some r \<or> (\<exists>f \<in> set o1. outcome x self fs cache f = Some (k, r))"
        using f assms(2) by blast
    qed
    moreover have "map_of (collect x self fs cache o2 []) k = Some r"
    proof (rule collect_complete)
      show "\<forall>g \<in> set o2. \<forall>r'. outcome x self fs cache g = Some (k, r') \<longrightarrow> r' = r"
        using u assms(3) by simp
      show "map_of [] k = Some r \<or> (\<exists>f \<in> set o2. outcome x self fs cache f = Some (k, r))"
        using f assms(3) by blast
    qed
    ultimately show ?thesis by simp
  next
    case False
    have "map_of (collect x self fs cache o1 []) k = None"
    proof (rule collect_none)
      show "map_of [] k = None" by simp
      show "\<forall>f \<in> set o1. \<forall>r. outcome x self fs cache f \<noteq> Some (k, r)"
        using False assms(2) by blast
    qed
    moreover have "map_of (collect x self fs cache o2 []) k = None"
    proof (rule collect_none)
      show "map_of [] k = None" by simp
      show "\<forall>f \<in> set o2. \<forall>r. outcome x self fs cache f \<noteq> Some (k, r)"
        using False assms(3) by blast
    qed
    ultimately show ?thesis by simp
  qed
qed

lemma outcome_Some_iff:
  "outcome x self fs cache f = Some (k, r) \<longleftrightarrow>
     (\<exists>rel. relative_to f (root_path self) = Inr rel \<and> k = rel_str rel \<and>
            fst (analyze_file x self fs f cache) = Inr r)"
  by (auto simp add: outcome_def split: sum.splits)

lemma outcome_consistent:
  assumes "names_ok fs"
      and "f \<in> set (scan_codebase self fs)" and "g \<in> set (scan_codebase self fs)"
      and "outcome x self fs cache f = Some (k, r)" and "outcome x self fs cache g = Some (k, r')"
  shows "r = r'"
proof -
  from scan_paths [OF assms(1,2)] obtain rf where
    f: "f = root_path self @ rf" "rf \<noteq> []" "\<forall>c \<in> set rf. CHR ''/'' \<notin> set c" by blast
  from scan_paths [OF assms(1,3)] obtain rg where
    g: "g = root_path self @ rg" "rg \<noteq> []" "\<forall>c \<in> set rg. CHR ''/'' \<notin> set c" by blast
  from assms(4) f have kf: "k = join ''/'' rf" and r: "fst (analyze_file x self fs f cache) = Inr r"
    by (auto simp add: outcome_def relative_to_append rel_str_def split: sum.splits)
  from assms(5) g have kg: "k = join ''/'' rg" and r': "fst (analyze_file x self fs g cache) = Inr r'"
    by (auto simp add: outcome_def relative_to_append rel_str_def split: sum.splits)
  from join_inj [OF f(2) g(2) f(3) g(3)] kf kg have "rf = rg" by simp
  with f g have "f = g" by simp
  with r r' show ?thesis by simp
qed

lemma scan_outcome_consistent:
  assumes "names_ok fs"
  shows "\<forall>f \<in> set (scan_codebase self fs). \<forall>g \<in> set (scan_codebase self fs). \<forall>k r r'.
           outcome x self fs cache f = Some (k, r) \<and> outcome x self fs cache g = Some (k, r') \<longrightarrow> r = r'"
  using outcome_consistent [OF assms] by blast

lemma run_returns:
  "0 < max_workers \<Longrightarrow>
   analyze_codebase_parallel x self fs completion max_workers =
     Inr (collect x self fs (load_cache x self fs) (completion (scan_codebase self fs)) [],
          save_cache x self fs
            (JDict (collect x self fs (load_cache x self fs) (completion (scan_codebase self fs)) [])))"
  by (simp add: analyze_codebase_parallel_def Let_def)

lemma scan_run_fs:
  "scan_codebase demo_rag run_fs = [[''r'', ''a.py''], [''r'', ''b.PY'']]"
  by (simp add: scan_codebase_def demo_rag_def run_fs_def eligible_def should_ignore_def
      ignore_patterns_def path_name_def path_str_def name_suffix_def rfind_dot_def lower_def
      lower_char_def code_extensions_def)

lemma names_ok_run_fs: "names_ok run_fs"
  by (simp add: run_fs_def)

text \<open>
  C8. With the generation capability a function of the prompt, a run with one worker
  and a run with four workers over the same file system return result maps with the
  same keys and the same records, whatever the order in which the futures complete.
\<close>

theorem worker_count_independent:
  assumes "names_ok fs"
      and "mset (solo (scan_codebase self fs)) = mset (scan_codebase self fs)"
      and "mset (quad (scan_codebase self fs)) = mset (scan_codebase self fs)"
  shows "\<exists>r1 fs1 r4 fs4.
           analyze_codebase_parallel x self fs solo 1 = Inr (r1, fs1) \<and>
           analyze_codebase_parallel x self fs quad 4 = Inr (r4, fs4) \<and>
           map_of r1 = map_of r4"
proof -
  let ?files = "scan_codebase self fs"
  let ?cache = "load_cache x self fs"
  have s1: "set (solo ?files) = set ?files" using assms(2) by (rule mset_eq_setD)
  have s4: "set (quad ?files) = set ?files" using assms(3) by (rule mset_eq_setD)
  have "map_of (collect x self fs ?cache (solo ?files) []) = map_of (collect x self fs ?cache (quad ?files) [])"
    by (rule collect_order_independent [OF scan_outcome_consistent [OF assms(1)] s1 s4])
  then show ?thesis by (simp add: run_returns)
qed

theorem worker_count_independent_witness:
  "names_ok run_fs \<and>
   mset (scan_codebase demo_rag run_fs) = mset (scan_codebase demo_rag run_fs) \<and>
   mset (rev (scan_codebase demo_rag run_fs)) = mset (scan_codebase demo_rag run_fs) \<and>
   (\<exists>r1 fs1 r4 fs4.
      analyze_codebase_parallel (stub_ext llm_ok []) demo_rag run_fs (\<lambda>files. files) 1 = Inr (r1, fs1) \<and>
      analyze_codebase_parallel (stub_ext llm_ok []) demo_rag run_fs rev 4 = Inr (r4, fs4) \<and>
      map_of r1 = map_of r4)"
proof -
  have 2: "mset ((\<lambda>files. files) (scan_codebase demo_rag run_fs)) = mset (scan_codebase demo_rag run_fs)"
    by simp
  have 3: "mset (rev (scan_codebase demo_rag run_fs)) = mset (scan_codebase demo_rag run_fs)"
    by simp
  from worker_count_independent
         [where fs = run_fs and self = demo_rag and solo = "\<lambda>files. files" and quad = rev
            and x = "stub_ext llm_ok []", OF names_ok_run_fs 2 3]
       names_ok_run_fs
  show ?thesis by simp
qed

lemma analyze_file_generation_error:
  assumes "relative_to file_path (root_path self) = Inr rel"
      and "cache_lookup cache (rel_str rel) (get_file_hash x fs file_path) = Inr None"
      and "open_read fs file_path = Inr bytes"
      and "ask_llm x (analysis_prompt (rel_str rel) (read_text x bytes)) = Inl e"
  shows "analyze_file x self fs file_path cache
           = (Inl e, [analysis_prompt (rel_str rel) (read_text x bytes)])"
  using assms by (simp add: analyze_file_def Let_def)

text \<open>
  C3, as the code has it. When the generation capability raises for a scanned file,
  \<open>analyze_file\<close> raises with it and returns no record. The run is not aborted: the
  dispatcher skips that future, the file has no entry in the result map, and every
  scanned file whose analysis returned a record has that record in the map.
\<close>

theorem generation_failure_is_local:
  assumes "0 < max_workers" and "names_ok fs"
      and "mset (completion (scan_codebase self fs)) = mset (scan_codebase self fs)"
      and "file_path \<in> set (scan_codebase self fs)"
      and "relative_to file_path (root_path self) = Inr rel"
      and "cache_lookup (load_cache x self fs) (rel_str rel) (get_file_hash x fs file_path) = Inr None"
      and "open_read fs file_path = Inr bytes"
      and "ask_llm x (analysis_prompt (rel_str rel) (read_text x bytes)) = Inl e"
  shows "analyze_file x self fs file_path (load_cache x self fs)
           = (Inl e, [analysis_prompt (rel_str rel) (read_text x bytes)]) \<and>
         (\<exists>results fs'.
            analyze_codebase_parallel x self fs completion max_workers = Inr (results, fs') \<and>
            map_of results (rel_str rel) = None \<and>
            (\<forall>g \<in> set (scan_codebase self fs). \<forall>rel' r.
               relative_to g (root_path self) = Inr rel' \<and>
               fst (analyze_file x self fs g (load_cache x self fs)) = Inr r
               \<longrightarrow> map_of results (rel_str rel') = Some r))"
proof -
  let ?files = "scan_codebase self fs"
  let ?cache = "load_cache x self fs"
  let ?results = "collect x self fs ?cache (completion ?files) []"
  have sets: "set (completion ?files) = set ?files" using assms(3) by (rule mset_eq_setD)
  have raised: "analyze_file x self fs file_path ?cache
                  = (Inl e, [analysis_prompt (rel_str rel) (read_text x bytes)])"
    by (rule analyze_file_generation_error [OF assms(5-8)])
  have failed: "outcome x self fs ?cache file_path = None"
    using raised by (simp add: outcome_def)
  have absent: "map_of ?results (rel_str rel) = None"
  proof (rule collect_none)
    show "map_of [] (rel_str rel) = None" by simp
    show "\<forall>f \<in> set (completion ?files). \<forall>r. outcome x self fs ?cache f \<noteq> Some (rel_str rel, r)"
    proof (intro ballI allI notI)
      fix f r
      assume f: "f \<in> set (completion ?files)" and o: "outcome x self fs ?cache f = Some (rel_str rel, r)"
      from f sets have fin: "f \<in> set ?files" by simp
      from o obtain rf where rf: "relative_to f (root_path self) = Inr rf" "rel_str rel = rel_str rf"
        by (auto simp add: outcome_Some_iff)
      from scan_paths [OF assms(2) fin] obtain pf where
        pf: "f = root_path self @ pf" "pf \<noteq> []" "\<forall>c \<in> set pf. CHR ''/'' \<notin> set c" by blast
      from scan_paths [OF assms(2,4)] obtain pp where
        pp: "file_path = root_path self @ pp" "pp \<noteq> []" "\<forall>c \<in> set pp. CHR ''/'' \<notin> set c" by blast
      from rf(1) pf(1) have "rf = pf" by (simp add: relative_to_append)
      moreover from assms(5) pp(1) have "rel = pp" by (simp add: relative_to_append)
      ultimately have "join ''/'' pp = join ''/'' pf"
        using rf(2) pf(2) pp(2) by (simp add: rel_str_def)
      from join_inj [OF pp(2) pf(2) pp(3) pf(3) this] pf(1) pp(1) have "f = file_path" by simp
      with o failed show False by simp
    qed
  qed
  have siblings: "\<forall>g \<in> set ?files. \<forall>rel' r.
               relative_to g (root_path self) = Inr rel' \<and> fst (analyze_file x self fs g ?cache) = Inr r
               \<longrightarrow> map_of ?results (rel_str rel') = Some r"
  proof (intro ballI allI impI)
    fix g rel' r
    assume g: "g \<in> set ?files"
       and gr: "relative_to g (root_path self) = Inr rel' \<and> fst (analyze_file x self fs g ?cache) = Inr r"
    then have og: "outcome x self fs ?cache g = Some (rel_str rel', r)"
      by (simp add: outcome_Some_iff)
    show "map_of ?results (rel_str rel') = Some r"
    proof (rule collect_complete)
      show "\<forall>h \<in> set (completion ?files). \<forall>r'. outcome x self fs ?cache h = Some (rel_str rel', r') \<longrightarrow> r' = r"
        using outcome_consistent [OF assms(2) _ g _ og] sets by blast
      show "map_of [] (rel_str rel') = Some r \<or>
            (\<exists>f \<in> set (completion ?files). outcome x self fs ?cache f = Some (rel_str rel', r))"
        using g og sets by blast
    qed
  qed
  from raised absent siblings assms(1) show ?thesis by (simp add: run_returns)
qed

theorem generation_failure_is_local_witness:
  "0 < (4::int) \<and> names_ok run_fs \<and>
   mset (rev (scan_codebase demo_rag run_fs)) = mset (scan_codebase demo_rag run_fs) \<and>
   [''r'', ''a.py''] \<in> set (scan_codebase demo_rag run_fs) \<and>
   relative_to [''r'', ''a.py''] (root_path demo_rag) = Inr [''a.py''] \<and>
   cache_lookup (load_cache (stub_ext llm_partial []) demo_rag run_fs) (rel_str [''a.py''])
       (get_file_hash (stub_ext llm_partial []) run_fs [''r'', ''a.py'']) = Inr None \<and>
   open_read run_fs [''r'', ''a.py''] = Inr ''x = 1'' \<and>
   ask_llm (stub_ext llm_partial []) (analysis_prompt (rel_str [''a.py'']) (read_text (stub_ext llm_partial []) ''x = 1''))
     = Inl (GenerationError ''down'') \<and>
   analyze_file (stub_ext llm_partial []) demo_rag run_fs [''r'', ''a.py''] (load_cache (stub_ext llm_partial []) demo_rag run_fs)
     = (Inl (GenerationError ''down''),
        [analysis_prompt (rel_str [''a.py'']) (read_text (stub_ext llm_partial []) ''x = 1'')]) \<and>
   (\<exists>results fs'.
      analyze_codebase_parallel (stub_ext llm_partial []) demo_rag run_fs rev 4 = Inr (results, fs') \<and>
      map_of results (rel_str [''a.py'']) = None \<and>
      (\<forall>g \<in> set (scan_codebase demo_rag run_fs). \<forall>rel' r.
         relative_to g (root_path demo_rag) = Inr rel' \<and>
         fst (analyze_file (stub_ext llm_partial []) demo_rag run_fs g (load_cache (stub_ext llm_partial []) demo_rag run_fs)) = Inr r
         \<longrightarrow> map_of results (rel_str rel') = Some r))"
proof -
  have 1: "0 < (4::int)" by simp
  have 3: "mset (rev (scan_codebase demo_rag run_fs)) = mset (scan_codebase demo_rag run_fs)" by simp
  have 4: "[''r'', ''a.py''] \<in> set (scan_codebase demo_rag run_fs)" by (simp add: scan_run_fs)
  have 5: "relative_to [''r'', ''a.py''] (root_path demo_rag) = Inr [''a.py'']"
    by (simp add: relative_to_def demo_rag_def)
  have 6: "cache_lookup (load_cache (stub_ext llm_partial []) demo_rag run_fs) (rel_str [''a.py''])
       (get_file_hash (stub_ext llm_partial []) run_fs [''r'', ''a.py'']) = Inr None"
    by (simp add: load_cache_def path_exists_def cache_file_def demo_rag_def run_fs_def open_read_def
        stub_ext_def cache_lookup_def)
  have 7: "open_read run_fs [''r'', ''a.py''] = Inr ''x = 1''"
    by (simp add: open_read_def run_fs_def)
  have 8: "ask_llm (stub_ext llm_partial []) (analysis_prompt (rel_str [''a.py'']) (read_text (stub_ext llm_partial []) ''x = 1''))
     = Inl (GenerationError ''down'')"
    by (simp add: stub_ext_def llm_partial_def analysis_prompt_def rel_str_def nl_def)
  from generation_failure_is_local
         [where completion = rev and fs = run_fs and self = demo_rag and x = "stub_ext llm_partial []",
          OF 1 names_ok_run_fs 3 4 5 6 7 8]
       1 names_ok_run_fs 3 4 5 6 7 8
  show ?thesis by blast
qed

text \<open>
  The generation capability is down for every prompt: no call of \<open>analyze_file\<close>
  returns a record, with or without an error field, and the result map is empty.
\<close>

theorem generation_failure_counterexample:
  "ask_llm (stub_ext llm_down []) (analysis_prompt ''a.py'' ''x = 1'') = Inl (GenerationError ''down'') \<and>
   fst (analyze_file (stub_ext llm_down []) demo_rag run_fs [''r'', ''a.py''] (JDict []))
     = Inl (GenerationError ''down'') \<and>
   (case analyze_codebase_parallel (stub_ext llm_down []) demo_rag run_fs (\<lambda>files. files) 4 of
      Inl e \<Rightarrow> False
    | Inr (results, fs') \<Rightarrow> results = [])"
proof -
  have c: "load_cache (stub_ext llm_down []) demo_rag run_fs = JDict []"
    by (simp add: load_cache_def path_exists_def cache_file_def demo_rag_def run_fs_def open_read_def stub_ext_def)
  have a: "fst (analyze_file (stub_ext llm_down []) demo_rag run_fs [''r'', ''a.py''] (JDict [])) = Inl (GenerationError ''down'')"
    by (simp add: analyze_file_def relative_to_def demo_rag_def cache_lookup_def open_read_def run_fs_def
        stub_ext_def llm_down_def Let_def)
  have b: "fst (analyze_file (stub_ext llm_down []) demo_rag run_fs [''r'', ''b.PY''] (JDict [])) = Inl (GenerationError ''down'')"
    by (simp add: analyze_file_def relative_to_def demo_rag_def cache_lookup_def open_read_def run_fs_def
        stub_ext_def llm_down_def Let_def)
  have coll: "collect (stub_ext llm_down []) demo_rag run_fs (JDict []) [[''r'', ''a.py''], [''r'', ''b.PY'']] [] = []"
    by (simp add: a b)
  have run: "analyze_codebase_parallel (stub_ext llm_down []) demo_rag run_fs (\<lambda>files. files) 4
               = Inr ([], save_cache (stub_ext llm_down []) demo_rag run_fs (JDict []))"
  proof -
    have "0 < (4::int)" by simp
    from run_returns [OF this, of "stub_ext llm_down []" demo_rag run_fs "\<lambda>files. files"]
    show ?thesis by (simp only: scan_run_fs c coll)
  qed
  have ask: "ask_llm (stub_ext llm_down []) (analysis_prompt ''a.py'' ''x = 1'') = Inl (GenerationError ''down'')"
    by (simp add: stub_ext_def llm_down_def)
  from a run ask show ?thesis by simp
qed








subsection \<open>Document assembly\<close>

lemma api_match_Inr:
  "api_match k v = Inr hit \<Longrightarrow> hit = mentions_api k v"
  by (cases v) (auto simp add: api_match_def mentions_api_def lower_def split: if_splits option.splits json.splits)

lemma api_files_filter:
  "api_files results = Inr ks \<Longrightarrow> ks = map fst (filter (\<lambda>(k, v). mentions_api k v) results)"
proof (induction results arbitrary: ks)
  case Nil
  then show ?case by simp
next
  case (Cons kv rest)
  obtain k v where kv: "kv = (k, v)" by (cases kv)
  from Cons.prems kv obtain hit ks' where
    h: "api_match k v = Inr hit" and r: "api_files rest = Inr ks'" and ks: "ks = (if hit then k # ks' else ks')"
    by (auto split: sum.splits)
  from Cons.IH [OF r] api_match_Inr [OF h] ks kv show ?case by simp
qed

lemma api_files_empty_iff:
  assumes "api_files results = Inr ks"
  shows "ks \<noteq> [] \<longleftrightarrow> (\<exists>(k, v) \<in> set results. mentions_api k v)"
proof -
  from api_files_filter [OF assms] have "ks = map fst (filter (\<lambda>(k, v). mentions_api k v) results)" .
  then show ?thesis by (auto simp add: filter_empty_conv)
qed

lemma write_or_skip_creates:
  assumes "lookup fs (butlast p) = Some (Dir cs)" and "lookup fs p = None"
  shows "lookup (write_or_skip fs p bytes) p = Some (File bytes)"
proof -
  from assms(2) have ne: "p \<noteq> []" by (cases p) auto
  from assms have "write_or_skip fs p bytes = put fs p (File bytes)"
    by (simp add: write_or_skip_def open_write_def)
  with lookup_put_same [OF ne assms(1)] show ?thesis by simp
qed

text \<open>
  C7, as the code has it. When step 4 returns, in a root directory that had no
  \<open>API_DOCUMENTATION.md\<close>, the file exists afterwards, and the generation capability
  was asked for it, if and only if some entry of the result map has \<open>api\<close> in its
  lower-cased path or \<open>endpoint\<close> in its lower-cased analysis text. The keyword
  \<open>endpoint\<close> is not looked for in paths, nor \<open>api\<close> in analysis texts.
\<close>

theorem api_documentation_condition:
  assumes "fst (api_documentation x self fs results) = Inr fs'"
      and "lookup fs (root_path self) = Some (Dir cs)"
      and "lookup fs (api_file self) = None"
  shows "(lookup fs' (api_file self) \<noteq> None \<longleftrightarrow> (\<exists>(k, v) \<in> set results. mentions_api k v)) \<and>
         (snd (api_documentation x self fs results) \<noteq> [] \<longleftrightarrow>
            (\<exists>(k, v) \<in> set results. mentions_api k v))"
proof -
  from assms(1) obtain ks where ks: "api_files results = Inr ks"
    by (auto simp add: api_documentation_def split: sum.splits)
  show ?thesis
  proof (cases "ks = []")
    case True
    with ks assms(1) have "fs' = fs" and "snd (api_documentation x self fs results) = []"
      by (simp_all add: api_documentation_def)
    with assms(3) True api_files_empty_iff [OF ks] show ?thesis by simp
  next
    case False
    with ks assms(1) obtain api_docs where
      "fs' = write_or_skip fs (api_file self) (write_text x api_docs)"
      and asked: "snd (api_documentation x self fs results) \<noteq> []"
      by (auto simp add: api_documentation_def split: sum.splits)
    moreover have "lookup fs (butlast (api_file self)) = Some (Dir cs)"
      using assms(2) by (simp add: api_file_def)
    ultimately have "lookup fs' (api_file self) \<noteq> None"
      using write_or_skip_creates [OF _ assms(3)] by simp
    with False asked api_files_empty_iff [OF ks] show ?thesis by simp
  qed
qed

theorem api_documentation_condition_witness:
  "fst (api_documentation (stub_ext llm_ok []) demo_rag demo_fs api_results)
     = Inr (write_or_skip demo_fs (api_file demo_rag) ''summary'') \<and>
   lookup demo_fs (root_path demo_rag) = Some (Dir [(''a.py'', File ''x = 1''), (''b.py'', NoRead)]) \<and>
   lookup demo_fs (api_file demo_rag) = None \<and>
   lookup (write_or_skip demo_fs (api_file demo_rag) ''summary'') (api_file demo_rag) \<noteq> None \<and>
   mentions_api ''routes.py'' (JDict [(''hash'', JStr ''h2''), (''analysis'', JStr ''Defines the Endpoint table'')])"
proof -
  have m1: "api_match ''main.py'' (JDict [(''hash'', JStr ''h1''), (''analysis'', JStr ''Entry point'')]) = Inr False"
    by (simp add: api_match_def lower_def lower_char_def)
  have m2: "api_match ''routes.py'' (JDict [(''hash'', JStr ''h2''), (''analysis'', JStr ''Defines the Endpoint table'')]) = Inr True"
    by (simp add: api_match_def lower_def lower_char_def)
  have files: "api_files api_results = Inr [''routes.py'']"
    by (simp add: api_results_def m1 m2)
  have 1: "fst (api_documentation (stub_ext llm_ok []) demo_rag demo_fs api_results)
     = Inr (write_or_skip demo_fs (api_file demo_rag) ''summary'')"
    unfolding api_documentation_def files
    by (simp add: api_prompt_def api_results_def stub_ext_def llm_ok_def)
  have 2: "lookup demo_fs (root_path demo_rag) = Some (Dir [(''a.py'', File ''x = 1''), (''b.py'', NoRead)])"
    by (simp add: demo_fs_def demo_rag_def)
  have 3: "lookup demo_fs (api_file demo_rag) = None"
    by (simp add: demo_fs_def demo_rag_def api_file_def)
  have 4: "mentions_api ''routes.py'' (JDict [(''hash'', JStr ''h2''), (''analysis'', JStr ''Defines the Endpoint table'')])"
    by (simp add: mentions_api_def lower_def lower_char_def)
  have 5: "(''routes.py'', JDict [(''hash'', JStr ''h2''), (''analysis'', JStr ''Defines the Endpoint table'')]) \<in> set api_results"
    by (simp add: api_results_def)
  from 4 5 have "\<exists>(k, v) \<in> set api_results. mentions_api k v" by blast
  with api_documentation_condition [OF 1 2 3] 1 2 3 4 show ?thesis by simp
qed

text \<open>
  One analysis text mentions an API and one path contains \<open>endpoint\<close>; no entry
  passes the filter and no API document is written.
\<close>

theorem api_keyword_counterexample:
  "py_in_str ''api'' (lower ''A REST API server'') \<and>
   py_in_str ''endpoint'' (lower ''endpoint.py'') \<and>
   api_files prose_results = Inr [] \<and>
   api_documentation (stub_ext llm_ok []) demo_rag demo_fs prose_results = (Inr demo_fs, []) \<and>
   lookup demo_fs (api_file demo_rag) = None"
proof -
  have m1: "api_match ''main.py'' (JDict [(''hash'', JStr ''h1''), (''analysis'', JStr ''A REST API server'')]) = Inr False"
    by (simp add: api_match_def lower_def lower_char_def)
  have m2: "api_match ''endpoint.py'' (JDict [(''hash'', JStr ''h2''), (''analysis'', JStr ''Routing'')]) = Inr False"
    by (simp add: api_match_def lower_def lower_char_def)
  have files: "api_files prose_results = Inr []"
    by (simp add: prose_results_def m1 m2)
  have a: "py_in_str ''api'' (lower ''A REST API server'')"
    by (simp add: lower_def lower_char_def)
  have b: "py_in_str ''endpoint'' (lower ''endpoint.py'')"
    by (simp add: lower_def lower_char_def)
  have c: "lookup demo_fs (api_file demo_rag) = None"
    by (simp add: demo_fs_def demo_rag_def api_file_def)
  from files a b c show ?thesis by (simp add: api_documentation_def)
qed

lemma wants_doc_error_record: "wants_doc (error_record h) = Inr False"
  by (simp add: wants_doc_def error_record_def)

lemma component_docs_loop_skip:
  "component_docs_loop x docs_dir fs (before @ (k, error_record h) # after)
     = component_docs_loop x docs_dir fs (before @ after)"
proof (induction before arbitrary: fs)
  case Nil
  show ?case by (simp add: wants_doc_error_record)
next
  case (Cons kv before)
  obtain file_path analysis where kv: "kv = (file_path, analysis)" by (cases kv)
  show ?case
    unfolding kv by (simp add: Cons.IH Let_def split: sum.splits)
qed

lemma file_summaries_skip:
  "file_summaries x (before @ (k, error_record h) # after) = file_summaries x (before @ after)"
proof (induction before)
  case Nil
  show ?case by (simp add: error_record_def)
next
  case (Cons kv before)
  obtain path result where kv: "kv = (path, result)" by (cases kv)
  show ?case
    unfolding kv by (simp add: Cons.IH split: sum.splits)
qed

text \<open>
  C10, as the code has it. When the file cannot be read and the cache test is a miss,
  \<open>analyze_file\<close> returns the record with \<open>error\<close> and \<open>hash\<close> only, without asking the
  generation capability. Such a record, wherever it stands in the result map, changes
  nothing in \<open>generate_component_docs\<close> (no prompt, no file) nor in
  \<open>generate_project_overview\<close>: both behave as if the entry were not there.
\<close>

theorem unreadable_file_record:
  assumes "open_read fs file_path = Inl e"
      and "relative_to file_path (root_path self) = Inr rel"
      and "cache_lookup cache (rel_str rel) [] = Inr None"
  shows "analyze_file x self fs file_path cache = (Inr (error_record []), []) \<and>
         generate_component_docs x self fs2 (before @ (k, error_record []) # after)
           = generate_component_docs x self fs2 (before @ after) \<and>
         generate_project_overview x (before @ (k, error_record []) # after)
           = generate_project_overview x (before @ after)"
proof -
  from assms have "analyze_file x self fs file_path cache = (Inr (error_record []), [])"
    by (simp add: analyze_file_def get_file_hash_unreadable)
  then show ?thesis
    by (simp add: generate_component_docs_def generate_project_overview_def Let_def
        component_docs_loop_skip file_summaries_skip split: sum.splits)
qed

theorem unreadable_file_record_witness:
  "open_read demo_fs [''r'', ''b.py''] = Inl PermissionError \<and>
   relative_to [''r'', ''b.py''] (root_path demo_rag) = Inr [''b.py''] \<and>
   cache_lookup (JDict [(''a.py'', JDict demo_record)]) (rel_str [''b.py'']) [] = Inr None \<and>
   analyze_file (stub_ext llm_ok []) demo_rag demo_fs [''r'', ''b.py''] (JDict [(''a.py'', JDict demo_record)])
     = (Inr (error_record []), []) \<and>
   generate_component_docs (stub_ext llm_ok []) demo_rag demo_fs
       ([(''a.py'', JDict demo_record)] @ (''b.py'', error_record []) # [])
     = generate_component_docs (stub_ext llm_ok []) demo_rag demo_fs ([(''a.py'', JDict demo_record)] @ []) \<and>
   generate_project_overview (stub_ext llm_ok []) ([(''a.py'', JDict demo_record)] @ (''b.py'', error_record []) # [])
     = generate_project_overview (stub_ext llm_ok []) ([(''a.py'', JDict demo_record)] @ [])"
proof -
  have 1: "open_read demo_fs [''r'', ''b.py''] = Inl PermissionError"
    by (simp add: open_read_def demo_fs_def)
  have 2: "relative_to [''r'', ''b.py''] (root_path demo_rag) = Inr [''b.py'']"
    by (simp add: relative_to_def demo_rag_def)
  have 3: "cache_lookup (JDict [(''a.py'', JDict demo_record)]) (rel_str [''b.py'']) [] = Inr None"
    by (simp add: cache_lookup_def rel_str_def)
  from unreadable_file_record [OF 1 2 3] 1 2 3 show ?thesis by blast
qed

text \<open>
  The file cannot be read and the cache holds a record for it with the empty hash: the
  cache test is a hit, the record that comes back has a path and an analysis and no
  error, a component document is written for it and the overview summarises it.
\<close>

theorem unreadable_cached_counterexample:
  "open_read demo_fs [''r'', ''b.py''] = Inl PermissionError \<and>
   analyze_file (stub_ext llm_ok []) demo_rag demo_fs [''r'', ''b.py''] (JDict [(''b.py'', JDict stale_record)])
     = (Inr (JDict stale_record), []) \<and>
   map_of stale_record ''error'' = None \<and>
   map_of stale_record ''path'' = Some (JStr ''b.py'') \<and>
   map_of stale_record ''analysis'' = Some (JStr ''stale'') \<and>
   wants_doc (JDict stale_record) = Inr True \<and>
   lookup (snd (fst (generate_component_docs (stub_ext llm_ok []) demo_rag demo_fs
                       [(''b.py'', JDict stale_record)])))
       [''r'', ''docs'', ''b.md''] = Some (File ''summary'') \<and>
   file_summaries (stub_ext llm_ok []) [(''b.py'', JDict stale_record)]
     = Inr [''File: b.py'' @ nl @ ''Analysis: stale...'']"
proof -
  have a: "analyze_file (stub_ext llm_ok []) demo_rag demo_fs [''r'', ''b.py''] (JDict [(''b.py'', JDict stale_record)])
     = (Inr (JDict stale_record), [])"
    by (simp add: open_read_def demo_fs_def get_file_hash_def cache_lookup_def stale_record_def
        analyze_file_def relative_to_def demo_rag_def rel_str_def)
  have w: "wants_doc (JDict stale_record) = Inr True"
    by (simp add: wants_doc_def stale_record_def)
  have p: "\<exists>prompt. doc_prompt (stub_ext llm_ok []) ''b.py'' (JDict stale_record) = Inr prompt"
    by (simp add: doc_prompt_def stale_record_def)
  have stem: "str_stem ''b.py'' = ''b''"
    by (simp add: str_stem_def name_stem_def rfind_dot_def)
  have d: "lookup (snd (fst (generate_component_docs (stub_ext llm_ok []) demo_rag demo_fs
                       [(''b.py'', JDict stale_record)])))
       [''r'', ''docs'', ''b.md''] = Some (File ''summary'')"
    using p
    by (auto simp add: generate_component_docs_def mkdir_exist_ok_def demo_rag_def demo_fs_def w stem
        Let_def write_or_skip_def open_write_def stub_ext_def llm_ok_def)
  have s: "file_summaries (stub_ext llm_ok []) [(''b.py'', JDict stale_record)]
     = Inr [''File: b.py'' @ nl @ ''Analysis: stale...'']"
    by (simp add: stale_record_def)
  have o: "open_read demo_fs [''r'', ''b.py''] = Inl PermissionError"
    by (simp add: open_read_def demo_fs_def)
  have m: "map_of stale_record ''error'' = None \<and>
   map_of stale_record ''path'' = Some (JStr ''b.py'') \<and>
   map_of stale_record ''analysis'' = Some (JStr ''stale'')"
    by (simp add: stale_record_def)
  from o a m w d s show ?thesis by simp
qed

end
